theory Spec2Isabelle
  imports Main "HOL-Library.Word"
begin

section \<open>Values, Deferreds and the recorded collaborators\<close>

text \<open>
  The module \<^verbatim>\<open>wormhole.py\<close> holds two front-ends over one Boss: the class
  \<^verbatim>\<open>_DelegatedWormhole\<close>, which pushes every event into a delegate object, and the class
  \<^verbatim>\<open>_DeferredWormhole\<close>, which hands out Twisted Deferreds and fires them when the Boss
  reports an event.

  Python values are modelled by the datatype \<open>pyobj\<close>, with the two notions the module
  applies to them: truthiness (\<^verbatim>\<open>if self._code:\<close>) and
  \<^verbatim>\<open>isinstance(result, WormholeError)\<close>. \<^verbatim>\<open>WormholeClosed\<close> derives from
  \<^verbatim>\<open>Exception\<close>, not from \<^verbatim>\<open>WormholeError\<close>.
\<close>

datatype pyobj =
    PyNone
  | PyInt int
  | PyStr string
  | PyBytes "8 word list"
  | PyFunc string
  | ExceptionInst string
  | WormholeErrorInst string
  | WormholeClosedInst pyobj

fun truthy :: "pyobj \<Rightarrow> bool" where
  "truthy PyNone = False"
| "truthy (PyInt n) = (n \<noteq> 0)"
| "truthy (PyStr s) = (s \<noteq> [])"
| "truthy (PyBytes b) = (b \<noteq> [])"
| "truthy (PyFunc f) = True"
| "truthy (ExceptionInst m) = True"
| "truthy (WormholeErrorInst m) = True"
| "truthy (WormholeClosedInst r) = True"

text \<open>
  Modelled from the spec: the class \<^verbatim>\<open>WormholeError\<close> is imported from \<^verbatim>\<open>_boss.py\<close>, which
  is not among the sources. The spec (section 7) describes it as the structured failure
  that the Engine reports. \<open>WormholeErrorInst m\<close> stands for an instance of
  \<^verbatim>\<open>WormholeError\<close> or of one of its subclasses; no other value is an instance of it.
\<close>

fun isinstance_WormholeError :: "pyobj \<Rightarrow> bool" where
  "isinstance_WormholeError (WormholeErrorInst m) = True"
| "isinstance_WormholeError v = False"

text \<open>
  A Deferred is an object of the Twisted library. The model keeps what the module relies
  on: a Deferred made by \<^verbatim>\<open>defer.Deferred()\<close> has no result; \<^verbatim>\<open>d.callback(v)\<close> gives it
  the result \<open>Success v\<close> and \<^verbatim>\<open>d.errback(e)\<close> the result \<open>Failure e\<close>, and then runs the
  continuations the application attached to it, synchronously; firing a Deferred that
  already has a result raises \<^verbatim>\<open>AlreadyCalledError\<close> and changes nothing;
  \<^verbatim>\<open>defer.succeed(v)\<close> makes a Deferred that already has the result \<open>Success v\<close>.
  Both \<^verbatim>\<open>callback\<close> and \<^verbatim>\<open>errback\<close> go through one routine of the library, \<open>fire\<close>
  here.
  Deferreds are objects with identity: the state holds them in a store, indexed by the
  order of their creation, and the observer lists hold their indices.
\<close>

datatype outcome = Success pyobj | Failure pyobj

datatype error = AlreadyCalledError | AttributeError

datatype ('a, 's) run = Returned 'a 's | Raised error 's

text \<open>
  Modelled from the spec: the class \<^verbatim>\<open>Boss\<close> (the Engine of the spec, section 6) is
  imported from \<^verbatim>\<open>_boss.py\<close>, which is not among the sources, and the delegate is an
  object of the application. The spec gives the Engine the commands of the front-ends
  and lets it answer by events later. Each of the two collaborators is modelled by the
  list of the calls it has received: the name of the method and its arguments.
\<close>

type_synonym call = "string \<times> pyobj list"

record deferred_wormhole =
  boss :: "call list option"
  code :: pyobj
  code_observers :: "nat list"
  verifier :: pyobj
  verifier_observers :: "nat list"
  received_data :: "pyobj list"
  received_observers :: "nat list"
  closed_observers :: "nat list"
  deferreds :: "nat \<Rightarrow> outcome option"
  next_deferred :: nat

record delegated_wormhole =
  delegate :: "call list"
  delegated_boss :: "call list option"

text \<open>
  The continuations of the application run inside \<^verbatim>\<open>callback\<close> and \<^verbatim>\<open>errback\<close>, and
  they may call the wormhole again. A \<open>consumer\<close> says what the continuations attached to
  each Deferred do to the wormhole when that Deferred fires. The \<open>quiet\<close> consumer does not
  touch the wormhole from inside a continuation.
\<close>

type_synonym consumer = "nat \<Rightarrow> deferred_wormhole \<Rightarrow> deferred_wormhole"

definition quiet :: consumer where
  "quiet d s = s"

definition Deferred :: "deferred_wormhole \<Rightarrow> nat \<times> deferred_wormhole" where
  "Deferred s =
     (next_deferred s,
      s\<lparr>deferreds := (deferreds s)(next_deferred s := None),
        next_deferred := Suc (next_deferred s)\<rparr>)"

definition succeed :: "pyobj \<Rightarrow> deferred_wormhole \<Rightarrow> nat \<times> deferred_wormhole" where
  "succeed v s =
     (next_deferred s,
      s\<lparr>deferreds := (deferreds s)(next_deferred s \<mapsto> Success v),
        next_deferred := Suc (next_deferred s)\<rparr>)"

definition fire ::
  "consumer \<Rightarrow> outcome \<Rightarrow> nat \<Rightarrow> deferred_wormhole \<Rightarrow> (unit, deferred_wormhole) run" where
  "fire k r d s =
     (case deferreds s d of
        Some r0 \<Rightarrow> Raised AlreadyCalledError s
      | None \<Rightarrow> Returned () (k d (s\<lparr>deferreds := (deferreds s)(d \<mapsto> r)\<rparr>)))"

definition callback ::
  "consumer \<Rightarrow> pyobj \<Rightarrow> nat \<Rightarrow> deferred_wormhole \<Rightarrow> (unit, deferred_wormhole) run" where
  "callback k v d s = fire k (Success v) d s"

definition errback ::
  "consumer \<Rightarrow> pyobj \<Rightarrow> nat \<Rightarrow> deferred_wormhole \<Rightarrow> (unit, deferred_wormhole) run" where
  "errback k e d s = fire k (Failure e) d s"

text \<open>
  \<^verbatim>\<open>for d in xs: body(d)\<close> over a list attribute. Python's list iterator keeps an index
  into the live list and stops when the index reaches the current length, so an element
  appended while the loop runs is visited by the same loop. The loop stops at the first
  exception. A loop whose body keeps appending never ends: the result is then \<open>None\<close>.
\<close>

partial_function (option) for_each ::
  "('s \<Rightarrow> nat list) \<Rightarrow> (nat \<Rightarrow> 's \<Rightarrow> (unit, 's) run) \<Rightarrow> nat \<Rightarrow> 's \<Rightarrow> (unit, 's) run option"
where
  "for_each xs body i s =
     (if i < length (xs s) then
        (case body (xs s ! i) s of
           Raised e s' \<Rightarrow> Some (Raised e s')
         | Returned u s' \<Rightarrow> for_each xs body (Suc i) s')
      else Some (Returned () s))"

section \<open>The class _DeferredWormhole\<close>

definition init :: deferred_wormhole where
  "init =
     \<lparr>boss = None, code = PyNone, code_observers = [], verifier = PyNone,
      verifier_observers = [], received_data = [], received_observers = [],
      closed_observers = [], deferreds = (\<lambda>d. None), next_deferred = 0\<rparr>"

definition set_boss :: "call list \<Rightarrow> deferred_wormhole \<Rightarrow> deferred_wormhole" where
  "set_boss b s = s\<lparr>boss := Some b\<rparr>"

definition when_code :: "deferred_wormhole \<Rightarrow> nat \<times> deferred_wormhole" where
  "when_code s =
     (if truthy (code s) then succeed (code s) s
      else (case Deferred s of
              (d, s1) \<Rightarrow> (d, s1\<lparr>code_observers := code_observers s1 @ [d]\<rparr>)))"

definition when_verifier :: "deferred_wormhole \<Rightarrow> nat \<times> deferred_wormhole" where
  "when_verifier s =
     (if truthy (verifier s) then succeed (verifier s) s
      else (case Deferred s of
              (d, s1) \<Rightarrow> (d, s1\<lparr>verifier_observers := verifier_observers s1 @ [d]\<rparr>)))"

definition when_received :: "deferred_wormhole \<Rightarrow> nat \<times> deferred_wormhole" where
  "when_received s =
     (case received_data s of
        m # ms \<Rightarrow> succeed m (s\<lparr>received_data := ms\<rparr>)
      | [] \<Rightarrow> (case Deferred s of
                 (d, s1) \<Rightarrow> (d, s1\<lparr>received_observers := received_observers s1 @ [d]\<rparr>)))"

text \<open>
  A command looks up \<^verbatim>\<open>self._boss\<close>, which exists only after \<^verbatim>\<open>_set_boss\<close>, and calls
  one method of it.
\<close>

definition boss_call ::
  "string \<Rightarrow> pyobj list \<Rightarrow> deferred_wormhole \<Rightarrow> (unit, deferred_wormhole) run" where
  "boss_call name args s =
     (case boss s of
        None \<Rightarrow> Raised AttributeError s
      | Some calls \<Rightarrow> Returned () (s\<lparr>boss := Some (calls @ [(name, args)])\<rparr>))"

definition allocate_code :: "pyobj \<Rightarrow> deferred_wormhole \<Rightarrow> (unit, deferred_wormhole) run" where
  "allocate_code code_length s = boss_call ''allocate_code'' [code_length] s"

definition input_code :: "pyobj \<Rightarrow> deferred_wormhole \<Rightarrow> (unit, deferred_wormhole) run" where
  "input_code stdio s = boss_call ''input_code'' [stdio] s"

definition set_code :: "pyobj \<Rightarrow> deferred_wormhole \<Rightarrow> (unit, deferred_wormhole) run" where
  "set_code c s = boss_call ''set_code'' [c] s"

definition send :: "pyobj \<Rightarrow> deferred_wormhole \<Rightarrow> (unit, deferred_wormhole) run" where
  "send plaintext s = boss_call ''send'' [plaintext] s"

definition close :: "deferred_wormhole \<Rightarrow> (nat, deferred_wormhole) run" where
  "close s =
     (case boss_call ''close'' [] s of
        Raised e s1 \<Rightarrow> Raised e s1
      | Returned u s1 \<Rightarrow>
          (case Deferred s1 of
             (d, s2) \<Rightarrow> Returned d (s2\<lparr>closed_observers := closed_observers s2 @ [d]\<rparr>)))"

definition debug_set_trace ::
  "pyobj \<Rightarrow> pyobj \<Rightarrow> pyobj \<Rightarrow> deferred_wormhole \<Rightarrow> (unit, deferred_wormhole) run" where
  "debug_set_trace client_name which logger s =
     boss_call ''_set_trace'' [client_name, which, logger] s"

text \<open>The default values of the keyword arguments, the same in both classes.\<close>

definition default_code_length :: pyobj where
  "default_code_length = PyInt 2"

definition default_which :: pyobj where
  "default_which = PyStr ''B N M S O K R RC NL C T''"

definition default_logger :: pyobj where
  "default_logger = PyFunc ''_log''"

text \<open>
  The events, called by the Boss. \<^verbatim>\<open>got_code\<close> and \<^verbatim>\<open>got_verifier\<close> store the value,
  fire the observers in the stored list and empty the list after the loop.
  \<^verbatim>\<open>received\<close> pops the oldest observer before it fires it. \<^verbatim>\<open>closed\<close> runs three
  loops and empties no list. (Its first statement prints the result; the model has no
  standard output.)
\<close>

definition got_code ::
  "consumer \<Rightarrow> pyobj \<Rightarrow> deferred_wormhole \<Rightarrow> (unit, deferred_wormhole) run option" where
  "got_code k c s =
     (case for_each code_observers (callback k c) 0 (s\<lparr>code := c\<rparr>) of
        None \<Rightarrow> None
      | Some (Raised e s1) \<Rightarrow> Some (Raised e s1)
      | Some (Returned u s1) \<Rightarrow> Some (Returned () (s1\<lparr>code_observers := []\<rparr>)))"

definition got_verifier ::
  "consumer \<Rightarrow> pyobj \<Rightarrow> deferred_wormhole \<Rightarrow> (unit, deferred_wormhole) run option" where
  "got_verifier k v s =
     (case for_each verifier_observers (callback k v) 0 (s\<lparr>verifier := v\<rparr>) of
        None \<Rightarrow> None
      | Some (Raised e s1) \<Rightarrow> Some (Raised e s1)
      | Some (Returned u s1) \<Rightarrow> Some (Returned () (s1\<lparr>verifier_observers := []\<rparr>)))"

definition received ::
  "consumer \<Rightarrow> pyobj \<Rightarrow> deferred_wormhole \<Rightarrow> (unit, deferred_wormhole) run" where
  "received k plaintext s =
     (case received_observers s of
        d # ds \<Rightarrow> callback k plaintext d (s\<lparr>received_observers := ds\<rparr>)
      | [] \<Rightarrow> Returned () (s\<lparr>received_data := received_data s @ [plaintext]\<rparr>))"

definition close_error :: "pyobj \<Rightarrow> pyobj" where
  "close_error result =
     (if isinstance_WormholeError result then result else WormholeClosedInst result)"

definition closed ::
  "consumer \<Rightarrow> pyobj \<Rightarrow> deferred_wormhole \<Rightarrow> (unit, deferred_wormhole) run option" where
  "closed k result s =
     (case for_each verifier_observers (errback k (close_error result)) 0 s of
        None \<Rightarrow> None
      | Some (Raised e s1) \<Rightarrow> Some (Raised e s1)
      | Some (Returned u s1) \<Rightarrow>
          (case for_each received_observers (errback k (close_error result)) 0 s1 of
             None \<Rightarrow> None
           | Some (Raised e s2) \<Rightarrow> Some (Raised e s2)
           | Some (Returned u s2) \<Rightarrow>
               for_each closed_observers (callback k result) 0 s2))"

section \<open>The class _DelegatedWormhole\<close>

definition delegated_init :: "call list \<Rightarrow> delegated_wormhole" where
  "delegated_init dg = \<lparr>delegate = dg, delegated_boss = None\<rparr>"

definition delegated_set_boss :: "call list \<Rightarrow> delegated_wormhole \<Rightarrow> delegated_wormhole" where
  "delegated_set_boss b s = s\<lparr>delegated_boss := Some b\<rparr>"

definition delegated_boss_call ::
  "string \<Rightarrow> pyobj list \<Rightarrow> delegated_wormhole \<Rightarrow> (unit, delegated_wormhole) run" where
  "delegated_boss_call name args s =
     (case delegated_boss s of
        None \<Rightarrow> Raised AttributeError s
      | Some calls \<Rightarrow> Returned () (s\<lparr>delegated_boss := Some (calls @ [(name, args)])\<rparr>))"

definition delegated_allocate_code ::
  "pyobj \<Rightarrow> delegated_wormhole \<Rightarrow> (unit, delegated_wormhole) run" where
  "delegated_allocate_code code_length s = delegated_boss_call ''allocate_code'' [code_length] s"

definition delegated_input_code ::
  "pyobj \<Rightarrow> delegated_wormhole \<Rightarrow> (unit, delegated_wormhole) run" where
  "delegated_input_code stdio s = delegated_boss_call ''input_code'' [stdio] s"

definition delegated_set_code ::
  "pyobj \<Rightarrow> delegated_wormhole \<Rightarrow> (unit, delegated_wormhole) run" where
  "delegated_set_code c s = delegated_boss_call ''set_code'' [c] s"

definition delegated_send ::
  "pyobj \<Rightarrow> delegated_wormhole \<Rightarrow> (unit, delegated_wormhole) run" where
  "delegated_send plaintext s = delegated_boss_call ''send'' [plaintext] s"

definition delegated_close :: "delegated_wormhole \<Rightarrow> (unit, delegated_wormhole) run" where
  "delegated_close s = delegated_boss_call ''close'' [] s"

definition delegated_debug_set_trace ::
  "pyobj \<Rightarrow> pyobj \<Rightarrow> pyobj \<Rightarrow> delegated_wormhole \<Rightarrow> (unit, delegated_wormhole) run" where
  "delegated_debug_set_trace client_name which logger s =
     delegated_boss_call ''set_trace'' [client_name, which, logger] s"

definition delegate_call :: "string \<Rightarrow> pyobj list \<Rightarrow> delegated_wormhole \<Rightarrow> delegated_wormhole" where
  "delegate_call name args s = s\<lparr>delegate := delegate s @ [(name, args)]\<rparr>"

definition delegated_got_code :: "pyobj \<Rightarrow> delegated_wormhole \<Rightarrow> delegated_wormhole" where
  "delegated_got_code c s = delegate_call ''wormhole_got_code'' [c] s"

definition delegated_got_verifier :: "pyobj \<Rightarrow> delegated_wormhole \<Rightarrow> delegated_wormhole" where
  "delegated_got_verifier v s = delegate_call ''wormhole_got_verifier'' [v] s"

definition delegated_received :: "pyobj \<Rightarrow> delegated_wormhole \<Rightarrow> delegated_wormhole" where
  "delegated_received plaintext s = delegate_call ''wormhole_received'' [plaintext] s"

definition delegated_closed :: "pyobj \<Rightarrow> delegated_wormhole \<Rightarrow> delegated_wormhole" where
  "delegated_closed result s = delegate_call ''wormhole_closed'' [result] s"

section \<open>Notions used in the statements and proofs\<close>

text \<open>
  \<open>state_of\<close> is the state a call leaves behind, whether it returned or raised.
  \<open>run_list\<close> is a loop over a fixed list, to which \<open>for_each\<close> is reduced when the body
  leaves the list alone. \<open>resolve r ds s\<close> is the state \<open>s\<close> with the result \<open>r\<close> stored in
  each Deferred of \<open>ds\<close>.
\<close>

fun state_of :: "('a, 's) run \<Rightarrow> 's" where
  "state_of (Returned u s) = s"
| "state_of (Raised e s) = s"

fun run_list :: "(nat \<Rightarrow> 's \<Rightarrow> (unit, 's) run) \<Rightarrow> nat list \<Rightarrow> 's \<Rightarrow> (unit, 's) run" where
  "run_list body [] s = Returned () s"
| "run_list body (d # ds) s =
     (case body d s of
        Raised e s' \<Rightarrow> Raised e s'
      | Returned u s' \<Rightarrow> run_list body ds s')"

definition resolve :: "outcome \<Rightarrow> nat list \<Rightarrow> deferred_wormhole \<Rightarrow> deferred_wormhole" where
  "resolve r ds s = s\<lparr>deferreds := (\<lambda>d. if d \<in> set ds then Some r else deferreds s d)\<rparr>"

text \<open>
  \<open>when_code_times n\<close> is \<open>n\<close> calls of \<^verbatim>\<open>when_code\<close> in a row; it returns the Deferreds
  the calls returned, in order.
\<close>

fun when_code_times :: "nat \<Rightarrow> deferred_wormhole \<Rightarrow> nat list \<times> deferred_wormhole" where
  "when_code_times 0 s = ([], s)"
| "when_code_times (Suc n) s =
     (case when_code s of
        (d, s1) \<Rightarrow> (case when_code_times n s1 of (ds, s2) \<Rightarrow> (d # ds, s2)))"




text \<open>
  The states of an open session: those a wormhole reaches from \<open>init\<close> by the calls of
  the application and the events of the Boss before \<^verbatim>\<open>closed\<close>, when no call raises and
  the consumer is quiet. In such a state the waiters are \<open>well_formed\<close>: no Deferred is
  registered twice, every registered Deferred is pending, and every one was created
  before the next Deferred to be created.
\<close>

definition waiters :: "deferred_wormhole \<Rightarrow> nat list" where
  "waiters s =
     code_observers s @ verifier_observers s @ received_observers s @ closed_observers s"

definition well_formed :: "deferred_wormhole \<Rightarrow> bool" where
  "well_formed s \<longleftrightarrow>
     distinct (waiters s) \<and> (\<forall>d\<in>set (waiters s). deferreds s d = None \<and> d < next_deferred s)"

inductive open_session :: "deferred_wormhole \<Rightarrow> bool" where
  start: "open_session init"
| set_boss: "open_session s \<Longrightarrow> open_session (set_boss b s)"
| when_code: "open_session s \<Longrightarrow> open_session (snd (when_code s))"
| when_verifier: "open_session s \<Longrightarrow> open_session (snd (when_verifier s))"
| when_received: "open_session s \<Longrightarrow> open_session (snd (when_received s))"
| command: "open_session s \<Longrightarrow> boss_call name args s = Returned () s' \<Longrightarrow> open_session s'"
| close: "open_session s \<Longrightarrow> close s = Returned d s' \<Longrightarrow> open_session s'"
| got_code: "open_session s \<Longrightarrow> got_code quiet c s = Some (Returned () s') \<Longrightarrow> open_session s'"
| got_verifier:
    "open_session s \<Longrightarrow> got_verifier quiet v s = Some (Returned () s') \<Longrightarrow> open_session s'"
| received: "open_session s \<Longrightarrow> received quiet m s = Returned () s' \<Longrightarrow> open_session s'"

section \<open>Loops over observer lists\<close>

lemma run_list_drop:
  "i < length ys \<Longrightarrow>
   run_list body (drop i ys) s =
     (case body (ys ! i) s of
        Raised e s' \<Rightarrow> Raised e s'
      | Returned u s' \<Rightarrow> run_list body (drop (Suc i) ys) s')"
  by (subst Cons_nth_drop_Suc [symmetric]) (simp_all del: Cons_nth_drop_Suc)

lemma set_drop_Suc: "i < length ys \<Longrightarrow> set (drop i ys) = insert (ys ! i) (set (drop (Suc i) ys))"
  by (subst Cons_nth_drop_Suc [symmetric]) (simp_all del: Cons_nth_drop_Suc)

lemma for_each_stable:
  assumes "\<And>d t u t'. d \<in> set (drop i (xs s)) \<Longrightarrow> body d t = Returned u t' \<Longrightarrow> xs t' = xs t"
  shows "for_each xs body i s = Some (run_list body (drop i (xs s)) s)"
  using assms
proof (induction "length (xs s) - i" arbitrary: i s)
  case 0
  from "0.hyps" show ?case by (subst for_each.simps) simp
next
  case (Suc n)
  from Suc.hyps(2) have lt: "i < length (xs s)" by simp
  show ?case
  proof (cases "body (xs s ! i) s")
    case (Raised e s')
    with lt show ?thesis by (subst for_each.simps) (simp add: run_list_drop)
  next
    case (Returned u s')
    have same: "xs s' = xs s"
      using Suc.prems [of "xs s ! i" s u s'] lt Returned by (simp add: set_drop_Suc)
    have "for_each xs body (Suc i) s' = Some (run_list body (drop (Suc i) (xs s')) s')"
    proof (rule Suc.hyps(1))
      show "n = length (xs s') - Suc i" using Suc.hyps(2) same by simp
    next
      fix d t u t'
      assume "d \<in> set (drop (Suc i) (xs s'))" and "body d t = Returned u t'"
      then show "xs t' = xs t"
        using Suc.prems [of d t u t'] lt same by (simp add: set_drop_Suc)
    qed
    with lt Returned same show ?thesis by (subst for_each.simps) (simp add: run_list_drop)
  qed
qed

lemma fire_quiet_pending:
  "deferreds s d = None \<Longrightarrow> fire quiet r d s = Returned () (s\<lparr>deferreds := (deferreds s)(d \<mapsto> r)\<rparr>)"
  by (simp add: fire_def quiet_def)

lemma fire_called:
  "deferreds s d = Some r0 \<Longrightarrow> fire k r d s = Raised AlreadyCalledError s"
  by (simp add: fire_def)

lemma run_list_fire_quiet:
  "distinct ds \<Longrightarrow> \<forall>d\<in>set ds. deferreds s d = None \<Longrightarrow>
   run_list (fire quiet r) ds s = Returned () (resolve r ds s)"
proof (induction ds arbitrary: s)
  case Nil
  show ?case by (simp add: resolve_def)
next
  case (Cons d ds)
  let ?s1 = "s\<lparr>deferreds := (deferreds s)(d \<mapsto> r)\<rparr>"
  have "run_list (fire quiet r) ds ?s1 = Returned () (resolve r ds ?s1)"
    using Cons.prems by (intro Cons.IH) auto
  moreover have "resolve r ds ?s1 = resolve r (d # ds) s"
    by (auto simp: resolve_def fun_eq_iff)
  ultimately show ?case using Cons.prems by (simp add: fire_quiet_pending)
qed

lemma fire_quiet_frame:
  "fire quiet r d t = Returned u t' \<Longrightarrow>
   t' = t\<lparr>deferreds := (deferreds t)(d \<mapsto> r)\<rparr> \<and> deferreds t d = None"
  by (auto simp: fire_def quiet_def split: option.splits)

lemma callback_fire: "callback k v = fire k (Success v)"
  by (intro ext) (simp add: callback_def)

lemma errback_fire: "errback k e = fire k (Failure e)"
  by (intro ext) (simp add: errback_def)

lemma resolve_fields [simp]:
  "boss (resolve r ds s) = boss s"
  "code (resolve r ds s) = code s"
  "code_observers (resolve r ds s) = code_observers s"
  "verifier (resolve r ds s) = verifier s"
  "verifier_observers (resolve r ds s) = verifier_observers s"
  "received_data (resolve r ds s) = received_data s"
  "received_observers (resolve r ds s) = received_observers s"
  "closed_observers (resolve r ds s) = closed_observers s"
  "next_deferred (resolve r ds s) = next_deferred s"
  "deferreds (resolve r ds s) d = (if d \<in> set ds then Some r else deferreds s d)"
  by (simp_all add: resolve_def)

lemma resolve_Nil [simp]: "resolve r [] s = s"
  by (simp add: resolve_def)

lemma run_list_fire_quiet_iff:
  "run_list (fire quiet r) ds s = Returned () s' \<longleftrightarrow>
   distinct ds \<and> (\<forall>d\<in>set ds. deferreds s d = None) \<and> s' = resolve r ds s"
proof (induction ds arbitrary: s)
  case Nil
  show ?case by auto
next
  case (Cons d ds)
  show ?case
  proof (cases "deferreds s d")
    case (Some r0)
    then show ?thesis by (auto simp: fire_called)
  next
    case None
    let ?s1 = "s\<lparr>deferreds := (deferreds s)(d \<mapsto> r)\<rparr>"
    have eq: "d \<notin> set ds \<Longrightarrow> resolve r ds ?s1 = resolve r (d # ds) s"
      by (auto simp: resolve_def fun_eq_iff)
    have "run_list (fire quiet r) (d # ds) s = run_list (fire quiet r) ds ?s1"
      using None by (simp add: fire_quiet_pending)
    also have "\<dots> = Returned () s' \<longleftrightarrow>
      distinct ds \<and> (\<forall>x\<in>set ds. deferreds ?s1 x = None) \<and> s' = resolve r ds ?s1"
      by (rule Cons.IH)
    finally have step: "run_list (fire quiet r) (d # ds) s = Returned () s' \<longleftrightarrow>
      distinct ds \<and> (\<forall>x\<in>set ds. deferreds ?s1 x = None) \<and> s' = resolve r ds ?s1" .
    show ?thesis
    proof (cases "d \<in> set ds")
      case True
      then have "deferreds ?s1 d \<noteq> None" by simp
      with True step show ?thesis by (metis distinct.simps(2))
    next
      case False
      then have "(\<forall>x\<in>set ds. deferreds ?s1 x = None) \<longleftrightarrow> (\<forall>x\<in>set ds. deferreds s x = None)"
        by auto
      with False step eq None show ?thesis by simp
    qed
  qed
qed

lemma run_list_fire_quiet_state:
  "\<exists>f. state_of (run_list (fire quiet r) ds s) = s\<lparr>deferreds := f\<rparr> \<and>
       (\<forall>d x. deferreds s d = Some x \<longrightarrow> f d = Some x)"
proof (induction ds arbitrary: s)
  case Nil
  show ?case by (rule exI [of _ "deferreds s"]) simp
next
  case (Cons d ds)
  show ?case
  proof (cases "deferreds s d")
    case (Some r0)
    show ?thesis
      by (rule exI [of _ "deferreds s"]) (simp add: Some fire_called)
  next
    case None
    let ?s1 = "s\<lparr>deferreds := (deferreds s)(d \<mapsto> r)\<rparr>"
    obtain f where f: "state_of (run_list (fire quiet r) ds ?s1) = ?s1\<lparr>deferreds := f\<rparr>"
      "\<forall>d x. deferreds ?s1 d = Some x \<longrightarrow> f d = Some x"
      using Cons.IH [of ?s1] by blast
    have "state_of (run_list (fire quiet r) (d # ds) s) = s\<lparr>deferreds := f\<rparr>"
      using None f(1) by (simp add: fire_quiet_pending)
    moreover have "\<forall>d' x. deferreds s d' = Some x \<longrightarrow> f d' = Some x"
    proof (intro allI impI)
      fix d' x
      assume a: "deferreds s d' = Some x"
      with None have "d' \<noteq> d" by auto
      with a have "deferreds ?s1 d' = Some x" by simp
      with f(2) show "f d' = Some x" by blast
    qed
    ultimately show ?thesis by blast
  qed
qed

lemma for_each_quiet:
  assumes "\<And>t f. sel (t\<lparr>deferreds := f\<rparr>) = sel t"
  shows "for_each sel (fire quiet r) 0 s = Some (run_list (fire quiet r) (sel s) s)"
proof -
  have "for_each sel (fire quiet r) 0 s = Some (run_list (fire quiet r) (drop 0 (sel s)) s)"
  proof (rule for_each_stable)
    fix d t u t'
    assume "fire quiet r d t = Returned u t'"
    then have "t' = t\<lparr>deferreds := (deferreds t)(d \<mapsto> r)\<rparr>"
      by (simp add: fire_quiet_frame)
    then show "sel t' = sel t" by (simp add: assms)
  qed
  then show ?thesis by simp
qed

lemmas for_each_quiet_code = for_each_quiet [of code_observers, simplified]
lemmas for_each_quiet_verifier = for_each_quiet [of verifier_observers, simplified]
lemmas for_each_quiet_received = for_each_quiet [of received_observers, simplified]
lemmas for_each_quiet_closed = for_each_quiet [of closed_observers, simplified]

section \<open>The events under a quiet consumer\<close>

lemma when_code_pending:
  "\<not> truthy (code s) \<Longrightarrow>
   when_code s =
     (next_deferred s,
      s\<lparr>code_observers := code_observers s @ [next_deferred s],
        deferreds := (deferreds s)(next_deferred s := None),
        next_deferred := Suc (next_deferred s)\<rparr>)"
  by (simp add: when_code_def Deferred_def)

lemma when_code_times_pending:
  "\<not> truthy (code s) \<Longrightarrow> when_code_times n s = (ds, s') \<Longrightarrow>
   ds = [next_deferred s ..< next_deferred s + n] \<and>
   s' = s\<lparr>code_observers := code_observers s @ ds,
         deferreds := (\<lambda>d. if d \<in> set ds then None else deferreds s d),
         next_deferred := next_deferred s + n\<rparr>"
proof (induction n arbitrary: s ds s')
  case 0
  then show ?case by simp
next
  case (Suc n)
  let ?m = "next_deferred s"
  let ?s1 = "s\<lparr>code_observers := code_observers s @ [?m],
        deferreds := (deferreds s)(?m := None), next_deferred := Suc ?m\<rparr>"
  obtain es s2 where r: "when_code_times n ?s1 = (es, s2)" by fastforce
  have c1: "\<not> truthy (code ?s1)" using Suc.prems(1) by simp
  note ih = Suc.IH [OF c1 r]
  have ds: "ds = ?m # es" and s': "s' = s2"
    using Suc.prems r by (simp_all add: when_code_pending)
  have es: "es = [Suc ?m ..< Suc ?m + n]" using ih by simp
  have "ds = [?m ..< ?m + Suc n]" using ds es by (simp add: upt_conv_Cons)
  moreover have "s' = s\<lparr>code_observers := code_observers s @ ds,
         deferreds := (\<lambda>d. if d \<in> set ds then None else deferreds s d),
         next_deferred := ?m + Suc n\<rparr>"
    using ih ds s' by (auto simp: fun_eq_iff)
  ultimately show ?case by blast
qed

lemma got_code_quiet_unfold:
  "got_code quiet c s =
     Some (case run_list (fire quiet (Success c)) (code_observers s) (s\<lparr>code := c\<rparr>) of
             Raised e s1 \<Rightarrow> Raised e s1
           | Returned u s1 \<Rightarrow> Returned () (s1\<lparr>code_observers := []\<rparr>))"
  by (simp add: got_code_def callback_fire for_each_quiet_code split: run.splits)

lemma got_verifier_quiet_unfold:
  "got_verifier quiet v s =
     Some (case run_list (fire quiet (Success v)) (verifier_observers s) (s\<lparr>verifier := v\<rparr>) of
             Raised e s1 \<Rightarrow> Raised e s1
           | Returned u s1 \<Rightarrow> Returned () (s1\<lparr>verifier_observers := []\<rparr>))"
  by (simp add: got_verifier_def callback_fire for_each_quiet_verifier split: run.splits)

lemma closed_quiet_unfold:
  "closed quiet r s =
     Some (case run_list (fire quiet (Failure (close_error r))) (verifier_observers s) s of
             Raised e s1 \<Rightarrow> Raised e s1
           | Returned u s1 \<Rightarrow>
               (case run_list (fire quiet (Failure (close_error r))) (received_observers s1) s1 of
                  Raised e s2 \<Rightarrow> Raised e s2
                | Returned u s2 \<Rightarrow>
                    run_list (fire quiet (Success r)) (closed_observers s2) s2))"
  by (simp add: closed_def callback_fire errback_fire for_each_quiet_verifier
      for_each_quiet_received for_each_quiet_closed split: run.splits)

lemma got_code_quiet_pending:
  assumes "distinct (code_observers s)" and "\<forall>d\<in>set (code_observers s). deferreds s d = None"
  shows "got_code quiet c s =
     Some (Returned () ((resolve (Success c) (code_observers s) (s\<lparr>code := c\<rparr>))\<lparr>code_observers := []\<rparr>))"
proof -
  have "run_list (fire quiet (Success c)) (code_observers s) (s\<lparr>code := c\<rparr>) =
      Returned () (resolve (Success c) (code_observers s) (s\<lparr>code := c\<rparr>))"
    using assms by (intro run_list_fire_quiet) simp_all
  then show ?thesis by (simp add: got_code_quiet_unfold)
qed

lemma closed_quiet_pending:
  assumes "distinct (verifier_observers s @ received_observers s @ closed_observers s)"
    and "\<forall>d\<in>set (verifier_observers s @ received_observers s @ closed_observers s).
           deferreds s d = None"
  shows "closed quiet r s =
     Some (Returned ()
       (resolve (Success r) (closed_observers s)
         (resolve (Failure (close_error r)) (received_observers s)
           (resolve (Failure (close_error r)) (verifier_observers s) s))))"
proof -
  let ?e = "Failure (close_error r)"
  let ?s1 = "resolve ?e (verifier_observers s) s"
  let ?s2 = "resolve ?e (received_observers s) ?s1"
  have 1: "run_list (fire quiet ?e) (verifier_observers s) s = Returned () ?s1"
    using assms by (intro run_list_fire_quiet) auto
  have 2: "run_list (fire quiet ?e) (received_observers s) ?s1 = Returned () ?s2"
    using assms by (intro run_list_fire_quiet) auto
  have 3: "run_list (fire quiet (Success r)) (closed_observers s) ?s2 =
      Returned () (resolve (Success r) (closed_observers s) ?s2)"
    using assms by (intro run_list_fire_quiet) auto
  show ?thesis by (simp add: closed_quiet_unfold 1 2 3)
qed

lemma three_calls: "when_code_times (Suc (Suc (Suc 0))) init =
  ([0, 1, 2], init\<lparr>code_observers := [0, 1, 2], next_deferred := 3\<rparr>)"
  by (simp add: when_code_def Deferred_def init_def fun_eq_iff)

section \<open>The Code channel\<close>

text \<open>
  C1. Cache and broadcast. Take a wormhole with no code cached, whose Code waiters are
  distinct, pending Deferreds, as in every open session, and a quiet consumer. After \<open>n\<close> calls of \<^verbatim>\<open>when_code\<close>, which return \<open>n\<close>
  distinct pending Deferreds, \<^verbatim>\<open>got_code(c)\<close> returns without raising, every one of the
  \<open>n\<close> Deferreds (and every earlier waiter) holds the result \<open>Success c\<close>, the code \<open>c\<close>
  is cached and the list of Code waiters is empty. A Deferred takes a result once: a
  second firing would have raised \<^verbatim>\<open>AlreadyCalledError\<close>.
\<close>

theorem code_broadcast:
  assumes "\<not> truthy (code s)"
    and "distinct (code_observers s)"
    and "\<forall>d\<in>set (code_observers s). deferreds s d = None \<and> d < next_deferred s"
    and "when_code_times n s = (ds, s1)"
  shows "length ds = n \<and> distinct ds \<and> (\<forall>d\<in>set ds. deferreds s1 d = None) \<and>
    (\<exists>s2. got_code quiet c s1 = Some (Returned () s2) \<and>
       (\<forall>d\<in>set ds. deferreds s2 d = Some (Success c)) \<and>
       (\<forall>d\<in>set (code_observers s). deferreds s2 d = Some (Success c)) \<and>
       code s2 = c \<and> code_observers s2 = [])"
proof -
  note reg = when_code_times_pending [OF assms(1) assms(4)]
  have ds: "ds = [next_deferred s ..< next_deferred s + n]" using reg by simp
  have obs: "code_observers s1 = code_observers s @ ds" using reg by simp
  have def1: "deferreds s1 = (\<lambda>d. if d \<in> set ds then None else deferreds s d)"
    using reg by simp
  have fresh: "set (code_observers s) \<inter> set ds = {}" using assms(3) ds by auto
  have dist: "distinct (code_observers s1)" using assms(2) fresh ds obs by simp
  have pend: "\<forall>d\<in>set (code_observers s1). deferreds s1 d = None"
    using assms(3) obs def1 by auto
  let ?s2 = "(resolve (Success c) (code_observers s1) (s1\<lparr>code := c\<rparr>))\<lparr>code_observers := []\<rparr>"
  have "got_code quiet c s1 = Some (Returned () ?s2)"
    using dist pend by (rule got_code_quiet_pending)
  moreover have "\<forall>d\<in>set ds. deferreds ?s2 d = Some (Success c)" using obs by simp
  moreover have "\<forall>d\<in>set (code_observers s). deferreds ?s2 d = Some (Success c)"
    using obs by simp
  moreover have "code ?s2 = c" "code_observers ?s2 = []" by simp_all
  ultimately have "\<exists>s2. got_code quiet c s1 = Some (Returned () s2) \<and>
       (\<forall>d\<in>set ds. deferreds s2 d = Some (Success c)) \<and>
       (\<forall>d\<in>set (code_observers s). deferreds s2 d = Some (Success c)) \<and>
       code s2 = c \<and> code_observers s2 = []" by blast
  moreover have "length ds = n" "distinct ds" using ds by simp_all
  moreover have "\<forall>d\<in>set ds. deferreds s1 d = None" using def1 by simp
  ultimately show ?thesis by blast
qed

theorem code_broadcast_witness:
  "fst (when_code_times (Suc (Suc (Suc 0))) init) = [0, 1, 2] \<and>
   (\<exists>s2. got_code quiet (PyStr ''7-crossover-clockwork'')
            (snd (when_code_times (Suc (Suc (Suc 0))) init)) = Some (Returned () s2) \<and>
      deferreds s2 0 = Some (Success (PyStr ''7-crossover-clockwork'')) \<and>
      deferreds s2 1 = Some (Success (PyStr ''7-crossover-clockwork'')) \<and>
      deferreds s2 2 = Some (Success (PyStr ''7-crossover-clockwork'')) \<and>
      code s2 = PyStr ''7-crossover-clockwork'' \<and> code_observers s2 = [])"
proof -
  let ?c = "PyStr ''7-crossover-clockwork''"
  let ?s1 = "init\<lparr>code_observers := [0, 1, 2], next_deferred := 3\<rparr>"
  have h1: "\<not> truthy (code init)" by (simp add: init_def)
  have h2: "distinct (code_observers init)" by (simp add: init_def)
  have h3: "\<forall>d\<in>set (code_observers init). deferreds init d = None \<and> d < next_deferred init"
    by (simp add: init_def)
  from code_broadcast [OF h1 h2 h3 three_calls, of ?c]
  obtain s2 where "got_code quiet ?c ?s1 = Some (Returned () s2)"
    and "\<forall>d\<in>set [0, 1, 2]. deferreds s2 d = Some (Success ?c)"
    and "code s2 = ?c" and "code_observers s2 = []"
    by blast
  then show ?thesis
    by (simp only: three_calls fst_conv snd_conv) auto
qed

section \<open>The Received channel\<close>


lemma when_received_buffered:
  "received_data s = m # ms \<Longrightarrow>
   when_received s =
     (next_deferred s,
      s\<lparr>received_data := ms,
        deferreds := (deferreds s)(next_deferred s \<mapsto> Success m),
        next_deferred := Suc (next_deferred s)\<rparr>)"
  by (simp add: when_received_def succeed_def)



section \<open>What closed changes\<close>

lemma state_update_trans:
  "s1 = s\<lparr>deferreds := f\<rparr> \<Longrightarrow> s2 = s1\<lparr>deferreds := g\<rparr> \<Longrightarrow> s2 = s\<lparr>deferreds := g\<rparr>"
  by simp

lemma closed_quiet_state:
  "\<exists>res f. closed quiet r s = Some res \<and> state_of res = s\<lparr>deferreds := f\<rparr> \<and>
     (\<forall>d x. deferreds s d = Some x \<longrightarrow> f d = Some x)"
proof -
  let ?e = "Failure (close_error r)"
  obtain f1 where f1: "state_of (run_list (fire quiet ?e) (verifier_observers s) s) = s\<lparr>deferreds := f1\<rparr>"
    "\<forall>d x. deferreds s d = Some x \<longrightarrow> f1 d = Some x"
    using run_list_fire_quiet_state by blast
  show ?thesis
  proof (cases "run_list (fire quiet ?e) (verifier_observers s) s")
    case (Raised e1 s1)
    then have "closed quiet r s = Some (Raised e1 s1)" by (simp add: closed_quiet_unfold)
    moreover have "s1 = s\<lparr>deferreds := f1\<rparr>" using f1(1) Raised by simp
    ultimately show ?thesis using f1(2) by (intro exI [of _ "Raised e1 s1"] exI [of _ f1]) simp
  next
    case (Returned u1 s1)
    then have s1: "s1 = s\<lparr>deferreds := f1\<rparr>" using f1(1) by simp
    obtain f2 where f2: "state_of (run_list (fire quiet ?e) (received_observers s1) s1) = s1\<lparr>deferreds := f2\<rparr>"
      "\<forall>d x. deferreds s1 d = Some x \<longrightarrow> f2 d = Some x"
      using run_list_fire_quiet_state by blast
    have m2: "\<forall>d x. deferreds s d = Some x \<longrightarrow> f2 d = Some x"
      using f1(2) f2(2) s1 by simp
    show ?thesis
    proof (cases "run_list (fire quiet ?e) (received_observers s1) s1")
      case (Raised e2 s2)
      then have "closed quiet r s = Some (Raised e2 s2)"
        using Returned by (simp add: closed_quiet_unfold)
      moreover have "s2 = s\<lparr>deferreds := f2\<rparr>" using f2(1) Raised s1 by simp
      ultimately show ?thesis using m2 by (intro exI [of _ "Raised e2 s2"] exI [of _ f2]) simp
    next
      case Returned2: (Returned u2 s2)
      then have s2: "s2 = s\<lparr>deferreds := f2\<rparr>" using f2(1) s1 by simp
      obtain f3 where f3: "state_of (run_list (fire quiet (Success r)) (closed_observers s2) s2) = s2\<lparr>deferreds := f3\<rparr>"
        "\<forall>d x. deferreds s2 d = Some x \<longrightarrow> f3 d = Some x"
        using run_list_fire_quiet_state by blast
      have m3: "\<forall>d x. deferreds s d = Some x \<longrightarrow> f3 d = Some x"
        using m2 f3(2) s2 by simp
      let ?res = "run_list (fire quiet (Success r)) (closed_observers s2) s2"
      have "closed quiet r s = Some ?res"
        using Returned Returned2 by (simp add: closed_quiet_unfold)
      moreover have "state_of ?res = s\<lparr>deferreds := f3\<rparr>" using f3(1) s2 by simp
      ultimately show ?thesis using m3 by (intro exI [of _ ?res] exI [of _ f3]) simp
    qed
  qed
qed

section \<open>Closing\<close>

lemma init_fields [simp]:
  "boss init = None" "code init = PyNone" "code_observers init = []" "verifier init = PyNone"
  "verifier_observers init = []" "received_data init = []" "received_observers init = []"
  "closed_observers init = []" "deferreds init d = None" "next_deferred init = 0"
  by (simp_all add: init_def)

lemma when_verifier_pending:
  "\<not> truthy (verifier s) \<Longrightarrow>
   when_verifier s =
     (next_deferred s,
      s\<lparr>verifier_observers := verifier_observers s @ [next_deferred s],
        deferreds := (deferreds s)(next_deferred s := None),
        next_deferred := Suc (next_deferred s)\<rparr>)"
  by (simp add: when_verifier_def Deferred_def)

lemma when_received_pending:
  "received_data s = [] \<Longrightarrow>
   when_received s =
     (next_deferred s,
      s\<lparr>received_observers := received_observers s @ [next_deferred s],
        deferreds := (deferreds s)(next_deferred s := None),
        next_deferred := Suc (next_deferred s)\<rparr>)"
  by (simp add: when_received_def Deferred_def)

lemma for_each_Nil: "xs s = [] \<Longrightarrow> for_each xs body 0 s = Some (Returned () s)"
  by (subst for_each.simps) simp

lemma for_each_first_called:
  "xs s = d # ds \<Longrightarrow> deferreds s d = Some r0 \<Longrightarrow>
   for_each xs (fire k r) 0 s = Some (Raised AlreadyCalledError s)"
  by (subst for_each.simps) (simp add: fire_called)

lemma closed_again:
  assumes "\<forall>d\<in>set (verifier_observers s @ received_observers s @ closed_observers s).
      deferreds s d \<noteq> None"
  shows "closed k result s =
     Some (if verifier_observers s = [] \<and> received_observers s = [] \<and> closed_observers s = []
           then Returned () s else Raised AlreadyCalledError s)"
proof (cases "verifier_observers s")
  case (Cons d ds)
  then obtain r0 where "deferreds s d = Some r0" using assms by auto
  with Cons show ?thesis
    by (simp add: closed_def errback_fire for_each_first_called)
next
  case v: Nil
  show ?thesis
  proof (cases "received_observers s")
    case (Cons d ds)
    then obtain r0 where "deferreds s d = Some r0" using assms by auto
    with Cons v show ?thesis
      by (simp add: closed_def errback_fire for_each_first_called for_each_Nil)
  next
    case r: Nil
    show ?thesis
    proof (cases "closed_observers s")
      case (Cons d ds)
      then obtain r0 where "deferreds s d = Some r0" using assms by auto
      with Cons v r show ?thesis
        by (simp add: closed_def errback_fire callback_fire for_each_first_called for_each_Nil)
    next
      case Nil
      with v r show ?thesis
        by (simp add: closed_def for_each_Nil)
    qed
  qed
qed

lemma closed_quiet_returned:
  assumes "closed quiet result s = Some (Returned () s')"
  shows "distinct (verifier_observers s) \<and> distinct (received_observers s) \<and>
     distinct (closed_observers s) \<and>
     s' = resolve (Success result) (closed_observers s)
         (resolve (Failure (close_error result)) (received_observers s)
           (resolve (Failure (close_error result)) (verifier_observers s) s)) \<and>
     (\<forall>d\<in>set (closed_observers s). deferreds s d = None)"
proof -
  let ?e = "Failure (close_error result)"
  from assms obtain s1 s2 where
    1: "run_list (fire quiet ?e) (verifier_observers s) s = Returned () s1" and
    2: "run_list (fire quiet ?e) (received_observers s1) s1 = Returned () s2" and
    3: "run_list (fire quiet (Success result)) (closed_observers s2) s2 = Returned () s'"
    by (auto simp: closed_quiet_unfold split: run.splits)
  from 1 have s1: "s1 = resolve ?e (verifier_observers s) s" and d1: "distinct (verifier_observers s)"
    by (simp_all add: run_list_fire_quiet_iff)
  from 2 have s2: "s2 = resolve ?e (received_observers s) s1" and d2: "distinct (received_observers s)"
    by (simp_all add: run_list_fire_quiet_iff s1)
  from 3 have s3: "s' = resolve (Success result) (closed_observers s) s2"
    and d3: "distinct (closed_observers s)"
    and p3: "\<forall>d\<in>set (closed_observers s). deferreds s2 d = None"
    by (simp_all add: run_list_fire_quiet_iff s2 s1)
  have "\<forall>d\<in>set (closed_observers s). deferreds s d = None"
    using p3 by (auto simp: s2 s1 split: if_splits)
  with s1 s2 s3 d1 d2 d3 show ?thesis by simp
qed







text \<open>
  C5. The claim: a call of \<^verbatim>\<open>when_verifier()\<close> or \<^verbatim>\<open>when_received()\<close> made after
  \<^verbatim>\<open>closed(result)\<close>, with no verifier cached and no message buffered, returns a
  Deferred that is resolved with the close error. It fails: \<^verbatim>\<open>closed\<close> stores nothing
  about the closure. On a new wormhole, after \<^verbatim>\<open>when_verifier()\<close> (Deferred 0) and
  \<^verbatim>\<open>closed('happy')\<close>, a second \<^verbatim>\<open>when_verifier()\<close> returns Deferred 1 with no
  result, and so does \<^verbatim>\<open>when_received()\<close>; a repeated \<^verbatim>\<open>closed('happy')\<close> raises
  \<^verbatim>\<open>AlreadyCalledError\<close> at Deferred 0 and leaves Deferred 1 without a result.
\<close>

theorem waiter_after_close_unresolved:
  "closed quiet (PyStr ''happy'') (snd (when_verifier init)) =
     Some (Returned ()
       (resolve (Failure (WormholeClosedInst (PyStr ''happy''))) [0] (snd (when_verifier init))))
   \<and> fst (when_verifier
        (resolve (Failure (WormholeClosedInst (PyStr ''happy''))) [0] (snd (when_verifier init)))) = 1
   \<and> deferreds (snd (when_verifier
        (resolve (Failure (WormholeClosedInst (PyStr ''happy''))) [0] (snd (when_verifier init))))) 1 =
      None
   \<and> closed quiet (PyStr ''happy'') (snd (when_verifier
        (resolve (Failure (WormholeClosedInst (PyStr ''happy''))) [0] (snd (when_verifier init))))) =
      Some (Raised AlreadyCalledError (snd (when_verifier
        (resolve (Failure (WormholeClosedInst (PyStr ''happy''))) [0] (snd (when_verifier init))))))
   \<and> fst (when_received
        (resolve (Failure (WormholeClosedInst (PyStr ''happy''))) [0] (snd (when_verifier init)))) = 1
   \<and> deferreds (snd (when_received
        (resolve (Failure (WormholeClosedInst (PyStr ''happy''))) [0] (snd (when_verifier init))))) 1 =
      None"
proof -
  have s: "snd (when_verifier init) = init\<lparr>verifier_observers := [0], next_deferred := Suc 0\<rparr>"
    by (simp add: when_verifier_def Deferred_def init_def fun_eq_iff)
  let ?s = "init\<lparr>verifier_observers := [0], next_deferred := Suc 0\<rparr>"
  let ?s1 = "resolve (Failure (WormholeClosedInst (PyStr ''happy''))) [0] ?s"
  have h1: "distinct (verifier_observers ?s @ received_observers ?s @ closed_observers ?s)"
    by (simp add: init_def)
  have h2: "\<forall>d\<in>set (verifier_observers ?s @ received_observers ?s @ closed_observers ?s).
      deferreds ?s d = None" by (simp add: init_def)
  have 1: "closed quiet (PyStr ''happy'') ?s = Some (Returned () ?s1)"
    using closed_quiet_pending [OF h1 h2, of "PyStr ''happy''"]
    by (simp add: init_def close_error_def resolve_def fun_eq_iff)
  have v: "\<not> truthy (verifier ?s1)" by simp
  have r: "received_data ?s1 = []" by simp
  have 2: "fst (when_verifier ?s1) = 1" "deferreds (snd (when_verifier ?s1)) 1 = None"
    by (simp_all add: when_verifier_pending [OF v])
  have 3: "fst (when_received ?s1) = 1" "deferreds (snd (when_received ?s1)) 1 = None"
    by (simp_all add: when_received_pending [OF r])
  have "verifier_observers (snd (when_verifier ?s1)) = [0, 1]"
    "deferreds (snd (when_verifier ?s1)) 0 = Some (Failure (WormholeClosedInst (PyStr ''happy'')))"
    by (simp_all add: when_verifier_pending [OF v])
  then have 4: "closed quiet (PyStr ''happy'') (snd (when_verifier ?s1)) =
      Some (Raised AlreadyCalledError (snd (when_verifier ?s1)))"
    by (simp add: closed_def errback_fire for_each_first_called)
  show ?thesis unfolding s using 1 2 3 4 by simp
qed

text \<open>
  C5, as amended. With no verifier cached, no message buffered and a quiet consumer,
  \<^verbatim>\<open>closed(result)\<close> ends (it returns or raises), and in the state it leaves a call of
  \<^verbatim>\<open>when_verifier()\<close>, and likewise of \<^verbatim>\<open>when_received()\<close>, returns a new Deferred
  that has no result and is appended to the list of waiters of its channel.
\<close>

theorem waiter_after_close_pending:
  assumes "\<not> truthy (verifier s)" and "received_data s = []"
  shows "\<exists>res. closed quiet result s = Some res \<and>
      fst (when_verifier (state_of res)) = next_deferred s \<and>
      deferreds (snd (when_verifier (state_of res))) (next_deferred s) = None \<and>
      verifier_observers (snd (when_verifier (state_of res))) =
        verifier_observers s @ [next_deferred s] \<and>
      fst (when_received (state_of res)) = next_deferred s \<and>
      deferreds (snd (when_received (state_of res))) (next_deferred s) = None \<and>
      received_observers (snd (when_received (state_of res))) =
        received_observers s @ [next_deferred s]"
proof -
  obtain res f where res: "closed quiet result s = Some res"
    and st: "state_of res = s\<lparr>deferreds := f\<rparr>"
    using closed_quiet_state by blast
  have v: "\<not> truthy (verifier (s\<lparr>deferreds := f\<rparr>))" using assms(1) by simp
  have r: "received_data (s\<lparr>deferreds := f\<rparr>) = []" using assms(2) by simp
  show ?thesis
    using res by (simp add: st when_verifier_pending [OF v] when_received_pending [OF r])
qed

theorem waiter_after_close_pending_witness:
  "\<exists>res. closed quiet (PyStr ''happy'') (snd (when_verifier init)) = Some res \<and>
      fst (when_verifier (state_of res)) = 1 \<and>
      deferreds (snd (when_verifier (state_of res))) 1 = None \<and>
      verifier_observers (snd (when_verifier (state_of res))) = [0, 1] \<and>
      fst (when_received (state_of res)) = 1 \<and>
      deferreds (snd (when_received (state_of res))) 1 = None \<and>
      received_observers (snd (when_received (state_of res))) = [1]"
proof -
  have s: "snd (when_verifier init) = init\<lparr>verifier_observers := [0], next_deferred := 1\<rparr>"
    by (simp add: when_verifier_def Deferred_def init_def fun_eq_iff)
  let ?s = "init\<lparr>verifier_observers := [0], next_deferred := 1\<rparr>"
  have h1: "\<not> truthy (verifier ?s)" by (simp add: init_def)
  have h2: "received_data ?s = []" by (simp add: init_def)
  from waiter_after_close_pending [OF h1 h2, of "PyStr ''happy''"]
  show ?thesis unfolding s by (simp add: init_def)
qed

text \<open>
  C9. Single terminal delivery. When \<^verbatim>\<open>closed(r1)\<close> has returned, under a quiet
  consumer, every Deferred that
  \<^verbatim>\<open>close()\<close> had returned was pending before and holds \<open>Success r1\<close> now. A second
  \<^verbatim>\<open>closed(r2)\<close>, whatever the consumer, changes nothing: it raises
  \<^verbatim>\<open>AlreadyCalledError\<close> at the first Deferred of the three lists, which \<^verbatim>\<open>closed\<close>
  never empties, or returns at once when the three lists are empty. In both cases the
  state, and with it every result, is the one the first call left.
\<close>

theorem closed_twice:
  assumes "closed quiet r1 s = Some (Returned () s1)"
  shows "(\<forall>d\<in>set (closed_observers s). deferreds s d = None \<and> deferreds s1 d = Some (Success r1)) \<and>
     closed_observers s1 = closed_observers s \<and>
     closed k r2 s1 =
       Some (if verifier_observers s1 = [] \<and> received_observers s1 = [] \<and> closed_observers s1 = []
             then Returned () s1 else Raised AlreadyCalledError s1)"
proof -
  note ret = closed_quiet_returned [OF assms]
  then have s1: "s1 = resolve (Success r1) (closed_observers s)
         (resolve (Failure (close_error r1)) (received_observers s)
           (resolve (Failure (close_error r1)) (verifier_observers s) s))" by simp
  have fired: "\<forall>d\<in>set (verifier_observers s1 @ received_observers s1 @ closed_observers s1).
      deferreds s1 d \<noteq> None"
    by (auto simp: s1)
  have "\<forall>d\<in>set (closed_observers s). deferreds s d = None \<and> deferreds s1 d = Some (Success r1)"
    using ret by (simp add: s1)
  moreover have "closed_observers s1 = closed_observers s" by (simp add: s1)
  ultimately show ?thesis using closed_again [OF fired] by simp
qed

theorem closed_twice_witness:
  "deferreds (resolve (Success (PyStr ''happy'')) [0] (state_of (close (set_boss [] init)))) 0 =
     Some (Success (PyStr ''happy''))
   \<and> closed quiet (PyStr ''again'')
       (resolve (Success (PyStr ''happy'')) [0] (state_of (close (set_boss [] init)))) =
     Some (Raised AlreadyCalledError
       (resolve (Success (PyStr ''happy'')) [0] (state_of (close (set_boss [] init)))))"
proof -
  have s: "state_of (close (set_boss [] init)) =
      init\<lparr>boss := Some [(''close'', [])], closed_observers := [0], next_deferred := 1\<rparr>"
    by (simp add: close_def boss_call_def set_boss_def Deferred_def init_def fun_eq_iff)
  let ?s = "init\<lparr>boss := Some [(''close'', [])], closed_observers := [0], next_deferred := 1\<rparr>"
  have h1: "distinct (verifier_observers ?s @ received_observers ?s @ closed_observers ?s)"
    by (simp add: init_def)
  have h2: "\<forall>d\<in>set (verifier_observers ?s @ received_observers ?s @ closed_observers ?s).
      deferreds ?s d = None" by (simp add: init_def)
  have 1: "closed quiet (PyStr ''happy'') ?s =
      Some (Returned () (resolve (Success (PyStr ''happy'')) [0] ?s))"
    using closed_quiet_pending [OF h1 h2, of "PyStr ''happy''"]
    by (simp add: init_def)
  from closed_twice [OF 1, of quiet "PyStr ''again''"]
  show ?thesis unfolding s by (simp add: init_def)
qed

text \<open>
  C10. Messages buffered before the closure survive it. When the buffer is \<open>m # ms\<close>
  and the consumer is quiet, \<^verbatim>\<open>closed(result)\<close> ends, whether it returns or raises, and leaves the buffer as it
  was; the next \<^verbatim>\<open>when_received()\<close> returns a new Deferred that holds \<open>Success m\<close>,
  leaves \<open>ms\<close> in the buffer and registers no waiter.
\<close>

theorem buffer_survives_close:
  assumes "received_data s = m # ms"
  shows "\<exists>res. closed quiet result s = Some res \<and>
      received_data (state_of res) = m # ms \<and>
      fst (when_received (state_of res)) = next_deferred s \<and>
      deferreds (snd (when_received (state_of res))) (next_deferred s) = Some (Success m) \<and>
      received_data (snd (when_received (state_of res))) = ms \<and>
      received_observers (snd (when_received (state_of res))) = received_observers s"
proof -
  obtain res f where res: "closed quiet result s = Some res"
    and st: "state_of res = s\<lparr>deferreds := f\<rparr>"
    using closed_quiet_state by blast
  have r: "received_data (s\<lparr>deferreds := f\<rparr>) = m # ms" using assms by simp
  show ?thesis
    using res assms by (simp add: st when_received_buffered [OF r])
qed

theorem buffer_survives_close_witness:
  "\<exists>res. closed quiet (WormholeErrorInst ''lonely'')
        (state_of (received quiet (PyBytes [2]) (state_of (received quiet (PyBytes [1]) init)))) =
        Some res \<and>
      received_data (state_of res) = [PyBytes [1], PyBytes [2]] \<and>
      fst (when_received (state_of res)) = 0 \<and>
      deferreds (snd (when_received (state_of res))) 0 = Some (Success (PyBytes [1])) \<and>
      received_data (snd (when_received (state_of res))) = [PyBytes [2]] \<and>
      received_observers (snd (when_received (state_of res))) = []"
proof -
  have s: "state_of (received quiet (PyBytes [2]) (state_of (received quiet (PyBytes [1]) init))) =
      init\<lparr>received_data := [PyBytes [1], PyBytes [2]]\<rparr>"
    by (simp add: received_def)
  let ?s = "init\<lparr>received_data := [PyBytes [1], PyBytes [2]]\<rparr>"
  have h: "received_data ?s = PyBytes [1] # [PyBytes [2]]" by simp
  from buffer_survives_close [OF h, of "WormholeErrorInst ''lonely''"]
  show ?thesis unfolding s by simp
qed

section \<open>A subscriber that comes after the code\<close>

lemma got_code_quiet_state:
  "\<exists>res f obs. got_code quiet c s = Some res \<and>
     state_of res = s\<lparr>code := c, code_observers := obs, deferreds := f\<rparr>"
proof -
  obtain f where f: "state_of (run_list (fire quiet (Success c)) (code_observers s) (s\<lparr>code := c\<rparr>)) =
      s\<lparr>code := c, deferreds := f\<rparr>"
    using run_list_fire_quiet_state [of "Success c" "code_observers s" "s\<lparr>code := c\<rparr>"] by auto
  show ?thesis
  proof (cases "run_list (fire quiet (Success c)) (code_observers s) (s\<lparr>code := c\<rparr>)")
    case (Raised e s1)
    then have "got_code quiet c s = Some (Raised e s1)" by (simp add: got_code_quiet_unfold)
    moreover have "s1 = s\<lparr>code := c, code_observers := code_observers s, deferreds := f\<rparr>"
      using f Raised by simp
    ultimately show ?thesis
      by (intro exI [of _ "Raised e s1"] exI [of _ f] exI [of _ "code_observers s"]) simp
  next
    case (Returned u s1)
    then have "got_code quiet c s = Some (Returned () (s1\<lparr>code_observers := []\<rparr>))"
      by (simp add: got_code_quiet_unfold)
    moreover have "s1\<lparr>code_observers := []\<rparr> = s\<lparr>code := c, code_observers := [], deferreds := f\<rparr>"
      using f Returned by simp
    ultimately show ?thesis
      by (intro exI [of _ "Returned () (s1\<lparr>code_observers := []\<rparr>)"] exI [of _ f] exI [of _ "[]"]) simp
  qed
qed

text \<open>
  C8. The claim: for every code value \<open>c\<close>, \<^verbatim>\<open>when_code()\<close> after \<^verbatim>\<open>got_code(c)\<close>
  returns a Deferred that already holds \<open>c\<close>, and registers no waiter. It fails for a
  code that Python counts as false: \<^verbatim>\<open>when_code\<close> tests \<^verbatim>\<open>if self._code:\<close>. After
  \<^verbatim>\<open>got_code('')\<close> on a new wormhole, \<^verbatim>\<open>when_code()\<close> returns Deferred 0 with no
  result and appends it to the list of Code waiters.
\<close>

theorem empty_code_not_served:
  "got_code quiet (PyStr []) init = Some (Returned () (init\<lparr>code := PyStr []\<rparr>))
   \<and> fst (when_code (init\<lparr>code := PyStr []\<rparr>)) = 0
   \<and> deferreds (snd (when_code (init\<lparr>code := PyStr []\<rparr>))) 0 = None
   \<and> code_observers (snd (when_code (init\<lparr>code := PyStr []\<rparr>))) = [0]"
proof -
  have h1: "distinct (code_observers init)" by (simp add: init_def)
  have h2: "\<forall>d\<in>set (code_observers init). deferreds init d = None" by (simp add: init_def)
  have "got_code quiet (PyStr []) init = Some (Returned () (init\<lparr>code := PyStr []\<rparr>))"
    using got_code_quiet_pending [OF h1 h2, of "PyStr []"]
    by (simp add: init_def resolve_def)
  then show ?thesis by (simp add: when_code_def Deferred_def init_def)
qed

text \<open>
  C8, as amended. For every code \<open>c\<close> that Python counts as true (a string that is not
  empty), and a quiet consumer, \<^verbatim>\<open>got_code(c)\<close> ends with \<open>c\<close> cached, and the next \<^verbatim>\<open>when_code()\<close> is
  \<^verbatim>\<open>defer.succeed(c)\<close>: a new Deferred that holds \<open>Success c\<close>, with the list of Code
  waiters left as it was.
\<close>

theorem late_code_subscriber:
  assumes "truthy c"
  shows "\<exists>res. got_code quiet c s = Some res \<and> code (state_of res) = c \<and>
      when_code (state_of res) = succeed c (state_of res) \<and>
      fst (when_code (state_of res)) = next_deferred s \<and>
      deferreds (snd (when_code (state_of res))) (next_deferred s) = Some (Success c) \<and>
      code_observers (snd (when_code (state_of res))) = code_observers (state_of res)"
proof -
  obtain res f obs where res: "got_code quiet c s = Some res"
    and st: "state_of res = s\<lparr>code := c, code_observers := obs, deferreds := f\<rparr>"
    using got_code_quiet_state by blast
  show ?thesis
    using res assms by (simp add: st when_code_def succeed_def)
qed

theorem late_code_subscriber_witness:
  "\<exists>res. got_code quiet (PyStr ''7-crossover-clockwork'') init = Some res \<and>
      code (state_of res) = PyStr ''7-crossover-clockwork'' \<and>
      fst (when_code (state_of res)) = 0 \<and>
      deferreds (snd (when_code (state_of res))) 0 =
        Some (Success (PyStr ''7-crossover-clockwork'')) \<and>
      code_observers (snd (when_code (state_of res))) = code_observers (state_of res)"
proof -
  have h: "truthy (PyStr ''7-crossover-clockwork'')" by simp
  from late_code_subscriber [OF h, of init]
  show ?thesis by (auto simp: init_def)
qed

section \<open>The waiters of an open session\<close>

lemma well_formed_init: "well_formed init"
  by (simp add: well_formed_def waiters_def)

lemma well_formed_fresh: "well_formed s \<Longrightarrow> next_deferred s \<notin> set (waiters s)"
  by (auto simp: well_formed_def)

lemma well_formed_same_waiters:
  assumes "well_formed s" and "waiters s' = waiters s"
    and "\<And>d. d < next_deferred s \<Longrightarrow> deferreds s' d = deferreds s d"
    and "next_deferred s \<le> next_deferred s'"
  shows "well_formed s'"
  unfolding well_formed_def
proof (intro conjI ballI)
  show "distinct (waiters s')" using assms(1,2) by (simp add: well_formed_def)
next
  fix d
  assume "d \<in> set (waiters s')"
  then have "deferreds s d = None" "d < next_deferred s"
    using assms(1,2) by (simp_all add: well_formed_def)
  then show "deferreds s' d = None" "d < next_deferred s'"
    using assms(3,4) by simp_all
qed

lemma well_formed_new_waiter:
  assumes "well_formed s" and "set (waiters s') = insert (next_deferred s) (set (waiters s))"
    and "distinct (waiters s')"
    and "\<And>d. d < next_deferred s \<Longrightarrow> deferreds s' d = deferreds s d"
    and "deferreds s' (next_deferred s) = None"
    and "next_deferred s' = Suc (next_deferred s)"
  shows "well_formed s'"
  unfolding well_formed_def
proof (intro conjI ballI)
  show "distinct (waiters s')" by (rule assms(3))
next
  fix d
  assume "d \<in> set (waiters s')"
  then consider "d = next_deferred s" | "d \<in> set (waiters s)" using assms(2) by auto
  then show "deferreds s' d = None"
  proof cases
    case 1
    then show ?thesis using assms(5) by simp
  next
    case 2
    then have "deferreds s d = None" "d < next_deferred s"
      using assms(1) by (simp_all add: well_formed_def)
    then show ?thesis using assms(4) by simp
  qed
  from \<open>d \<in> set (waiters s')\<close> assms(1,2) have "d \<le> next_deferred s"
    by (auto simp: well_formed_def)
  then show "d < next_deferred s'" using assms(6) by simp
qed

lemma well_formed_set_boss:
  assumes "well_formed s"
  shows "well_formed (set_boss b s)"
  using assms by (rule well_formed_same_waiters) (simp_all add: waiters_def set_boss_def)

lemma well_formed_succeed:
  assumes "well_formed s"
  shows "well_formed (snd (succeed v s))"
  using assms by (rule well_formed_same_waiters) (simp_all add: waiters_def succeed_def)

lemma well_formed_when_code:
  assumes "well_formed s"
  shows "well_formed (snd (when_code s))"
proof (cases "truthy (code s)")
  case True
  then show ?thesis using well_formed_succeed [OF assms] by (simp add: when_code_def)
next
  case False
  note fresh = well_formed_fresh [OF assms]
  show ?thesis
  proof (rule well_formed_new_waiter [OF assms])
    show "distinct (waiters (snd (when_code s)))"
      using assms fresh False
      by (simp add: when_code_pending well_formed_def waiters_def)
  qed (simp_all add: when_code_pending False waiters_def)
qed

lemma well_formed_when_verifier:
  assumes "well_formed s"
  shows "well_formed (snd (when_verifier s))"
proof (cases "truthy (verifier s)")
  case True
  then show ?thesis using well_formed_succeed [OF assms] by (simp add: when_verifier_def)
next
  case False
  note fresh = well_formed_fresh [OF assms]
  show ?thesis
  proof (rule well_formed_new_waiter [OF assms])
    show "distinct (waiters (snd (when_verifier s)))"
      using assms fresh False
      by (simp add: when_verifier_pending well_formed_def waiters_def)
  qed (simp_all add: when_verifier_pending False waiters_def)
qed

lemma well_formed_when_received:
  assumes "well_formed s"
  shows "well_formed (snd (when_received s))"
proof (cases "received_data s")
  case (Cons m ms)
  have "well_formed (s\<lparr>received_data := ms\<rparr>)"
    using assms by (rule well_formed_same_waiters) (simp_all add: waiters_def)
  then show ?thesis
    using well_formed_succeed [of "s\<lparr>received_data := ms\<rparr>" m] Cons
    by (simp add: when_received_def)
next
  case Nil
  note fresh = well_formed_fresh [OF assms]
  show ?thesis
  proof (rule well_formed_new_waiter [OF assms])
    show "distinct (waiters (snd (when_received s)))"
      using assms fresh Nil
      by (simp add: when_received_pending well_formed_def waiters_def)
  qed (simp_all add: when_received_pending Nil waiters_def)
qed

lemma well_formed_command:
  assumes "well_formed s" and "boss_call name args s = Returned () s'"
  shows "well_formed s'"
proof -
  from assms(2) obtain calls where "s' = s\<lparr>boss := Some (calls @ [(name, args)])\<rparr>"
    by (auto simp: boss_call_def split: option.splits)
  then show ?thesis
    by (intro well_formed_same_waiters [OF assms(1)]) (simp_all add: waiters_def)
qed

lemma well_formed_close:
  assumes "well_formed s" and "close s = Returned d s'"
  shows "well_formed s'"
proof -
  from assms(2) obtain calls where s': "s' = s\<lparr>boss := Some (calls @ [(''close'', [])]),
      deferreds := (deferreds s)(next_deferred s := None),
      next_deferred := Suc (next_deferred s),
      closed_observers := closed_observers s @ [next_deferred s]\<rparr>"
    by (auto simp: close_def boss_call_def Deferred_def split: option.splits)
  note fresh = well_formed_fresh [OF assms(1)]
  show ?thesis
  proof (rule well_formed_new_waiter [OF assms(1)])
    show "distinct (waiters s')"
      using assms(1) fresh by (simp add: s' well_formed_def waiters_def)
  qed (simp_all add: s' waiters_def)
qed

lemma well_formed_fewer_waiters:
  assumes "well_formed s" and "distinct (waiters s')"
    and "set (waiters s') \<subseteq> set (waiters s)"
    and "\<And>d. d \<in> set (waiters s') \<Longrightarrow> deferreds s' d = deferreds s d"
    and "next_deferred s' = next_deferred s"
  shows "well_formed s'"
  unfolding well_formed_def
proof (intro conjI ballI)
  show "distinct (waiters s')" by (rule assms(2))
next
  fix d
  assume d: "d \<in> set (waiters s')"
  then have "d \<in> set (waiters s)" using assms(3) by blast
  then have "deferreds s d = None" "d < next_deferred s"
    using assms(1) by (simp_all add: well_formed_def)
  then show "deferreds s' d = None" "d < next_deferred s'"
    using assms(4) [OF d] assms(5) by simp_all
qed

lemma well_formed_got_code:
  assumes "well_formed s" and "got_code quiet c s = Some (Returned () s')"
  shows "well_formed s'"
proof -
  have dist: "distinct (waiters s)" and pend: "\<forall>d\<in>set (waiters s). deferreds s d = None"
    using assms(1) by (simp_all add: well_formed_def)
  have "distinct (code_observers s)" "\<forall>d\<in>set (code_observers s). deferreds s d = None"
    using dist pend by (simp_all add: waiters_def)
  then have s': "s' = (resolve (Success c) (code_observers s) (s\<lparr>code := c\<rparr>))\<lparr>code_observers := []\<rparr>"
    using assms(2) by (simp add: got_code_quiet_pending)
  show ?thesis
  proof (rule well_formed_fewer_waiters [OF assms(1)])
    show "distinct (waiters s')" using dist by (auto simp: s' waiters_def)
    show "set (waiters s') \<subseteq> set (waiters s)" by (auto simp: s' waiters_def)
    show "next_deferred s' = next_deferred s" by (simp add: s')
  next
    fix d
    assume "d \<in> set (waiters s')"
    then have "d \<notin> set (code_observers s)" using dist by (auto simp: s' waiters_def)
    then show "deferreds s' d = deferreds s d" by (simp add: s')
  qed
qed

lemma got_verifier_quiet_pending:
  assumes "distinct (verifier_observers s)"
    and "\<forall>d\<in>set (verifier_observers s). deferreds s d = None"
  shows "got_verifier quiet v s =
     Some (Returned ()
       ((resolve (Success v) (verifier_observers s) (s\<lparr>verifier := v\<rparr>))\<lparr>verifier_observers := []\<rparr>))"
proof -
  have "run_list (fire quiet (Success v)) (verifier_observers s) (s\<lparr>verifier := v\<rparr>) =
      Returned () (resolve (Success v) (verifier_observers s) (s\<lparr>verifier := v\<rparr>))"
    using assms by (intro run_list_fire_quiet) simp_all
  then show ?thesis by (simp add: got_verifier_quiet_unfold)
qed

lemma well_formed_got_verifier:
  assumes "well_formed s" and "got_verifier quiet v s = Some (Returned () s')"
  shows "well_formed s'"
proof -
  have dist: "distinct (waiters s)" and pend: "\<forall>d\<in>set (waiters s). deferreds s d = None"
    using assms(1) by (simp_all add: well_formed_def)
  have "distinct (verifier_observers s)" "\<forall>d\<in>set (verifier_observers s). deferreds s d = None"
    using dist pend by (simp_all add: waiters_def)
  then have s': "s' = (resolve (Success v) (verifier_observers s) (s\<lparr>verifier := v\<rparr>))
      \<lparr>verifier_observers := []\<rparr>"
    using assms(2) by (simp add: got_verifier_quiet_pending)
  show ?thesis
  proof (rule well_formed_fewer_waiters [OF assms(1)])
    show "distinct (waiters s')" using dist by (auto simp: s' waiters_def)
    show "set (waiters s') \<subseteq> set (waiters s)" by (auto simp: s' waiters_def)
    show "next_deferred s' = next_deferred s" by (simp add: s')
  next
    fix d
    assume "d \<in> set (waiters s')"
    then have "d \<notin> set (verifier_observers s)" using dist by (auto simp: s' waiters_def)
    then show "deferreds s' d = deferreds s d" by (simp add: s')
  qed
qed

lemma well_formed_received:
  assumes "well_formed s" and "received quiet m s = Returned () s'"
  shows "well_formed s'"
proof (cases "received_observers s")
  case Nil
  then have "s' = s\<lparr>received_data := received_data s @ [m]\<rparr>"
    using assms(2) by (simp add: received_def)
  then show ?thesis
    by (intro well_formed_same_waiters [OF assms(1)]) (simp_all add: waiters_def)
next
  case (Cons x xs)
  have dist: "distinct (waiters s)" and pend: "\<forall>d\<in>set (waiters s). deferreds s d = None"
    using assms(1) by (simp_all add: well_formed_def)
  have "deferreds s x = None" using pend Cons by (simp add: waiters_def)
  then have s': "s' = s\<lparr>received_observers := xs, deferreds := (deferreds s)(x \<mapsto> Success m)\<rparr>"
    using assms(2) Cons by (simp add: received_def callback_def fire_def quiet_def)
  show ?thesis
  proof (rule well_formed_fewer_waiters [OF assms(1)])
    show "distinct (waiters s')" using dist Cons by (auto simp: s' waiters_def)
    show "set (waiters s') \<subseteq> set (waiters s)" using Cons by (auto simp: s' waiters_def)
    show "next_deferred s' = next_deferred s" by (simp add: s')
  next
    fix d
    assume "d \<in> set (waiters s')"
    then have "d \<noteq> x" using dist Cons by (auto simp: s' waiters_def)
    then show "deferreds s' d = deferreds s d" by (simp add: s')
  qed
qed

lemma open_session_well_formed: "open_session s \<Longrightarrow> well_formed s"
proof (induction rule: open_session.induct)
  case start
  show ?case by (rule well_formed_init)
next
  case (set_boss s b)
  then show ?case by (simp add: well_formed_set_boss)
next
  case (when_code s)
  then show ?case by (simp add: well_formed_when_code)
next
  case (when_verifier s)
  then show ?case by (simp add: well_formed_when_verifier)
next
  case (when_received s)
  then show ?case by (simp add: well_formed_when_received)
next
  case (command s name args s')
  from command.IH command.hyps(2) show ?case by (rule well_formed_command)
next
  case (close s d s')
  from close.IH close.hyps(2) show ?case by (rule well_formed_close)
next
  case (got_code s c s')
  from got_code.IH got_code.hyps(2) show ?case by (rule well_formed_got_code)
next
  case (got_verifier s v s')
  from got_verifier.IH got_verifier.hyps(2) show ?case by (rule well_formed_got_verifier)
next
  case (received s m s')
  from received.IH received.hyps(2) show ?case by (rule well_formed_received)
qed

lemma open_session_waiters:
  assumes "open_session s"
  shows "distinct (code_observers s @ verifier_observers s @ received_observers s @
      closed_observers s)"
    and "\<forall>d\<in>set (code_observers s @ verifier_observers s @ received_observers s @
      closed_observers s). deferreds s d = None \<and> d < next_deferred s"
  using open_session_well_formed [OF assms] by (simp_all add: well_formed_def waiters_def)

section \<open>A continuation that registers a new waiter\<close>






















section \<open>The command methods of the two classes\<close>

lemma commands_forward_alike:
  "delegated_boss (state_of (delegated_allocate_code n (delegated_set_boss b g))) =
     boss (state_of (allocate_code n (set_boss b s)))"
  "delegated_boss (state_of (delegated_input_code io (delegated_set_boss b g))) =
     boss (state_of (input_code io (set_boss b s)))"
  "delegated_boss (state_of (delegated_set_code c (delegated_set_boss b g))) =
     boss (state_of (set_code c (set_boss b s)))"
  "delegated_boss (state_of (delegated_send m (delegated_set_boss b g))) =
     boss (state_of (send m (set_boss b s)))"
  "delegated_boss (state_of (delegated_close (delegated_set_boss b g))) =
     boss (state_of (close (set_boss b s)))"
  by (simp_all add: delegated_allocate_code_def allocate_code_def delegated_input_code_def
      input_code_def delegated_set_code_def set_code_def delegated_send_def send_def
      delegated_close_def close_def delegated_boss_call_def boss_call_def
      delegated_set_boss_def set_boss_def Deferred_def)

text \<open>
  C7. The claim: each of the six command methods reaches the same operation of the Boss,
  with the same arguments, from either class. The five methods above do. For
  \<^verbatim>\<open>debug_set_trace\<close>, called with the same arguments on a Boss that has received no
  call yet, the delegated class calls the attribute \<^verbatim>\<open>set_trace\<close> of the Boss and the
  deferred class calls the attribute \<^verbatim>\<open>_set_trace\<close>: the two classes do not reach the
  same operation.
\<close>

theorem debug_set_trace_differs:
  "delegated_boss (state_of (delegated_debug_set_trace (PyStr ''tx'') default_which default_logger
       (delegated_set_boss [] (delegated_init [])))) =
     Some [(''set_trace'', [PyStr ''tx'', default_which, default_logger])]
   \<and> boss (state_of (debug_set_trace (PyStr ''tx'') default_which default_logger
       (set_boss [] init))) =
     Some [(''_set_trace'', [PyStr ''tx'', default_which, default_logger])]
   \<and> delegated_boss (state_of (delegated_debug_set_trace (PyStr ''tx'') default_which default_logger
       (delegated_set_boss [] (delegated_init [])))) \<noteq>
     boss (state_of (debug_set_trace (PyStr ''tx'') default_which default_logger
       (set_boss [] init)))"
  by (simp add: delegated_debug_set_trace_def debug_set_trace_def delegated_boss_call_def
      boss_call_def delegated_set_boss_def set_boss_def delegated_init_def init_def)

end
